theory Spec2Isabelle
  imports Main "HOL-Library.Char_ord" "HOL-Library.List_Lexorder"
begin

section \<open>Python strings and small library functions\<close>

text \<open>
  Strings are byte lists. The few string functions of the Python standard library that
  the repository calls are written out here: \<open>sep.join(parts)\<close>, \<open>str(n)\<close> for a
  non-negative integer, \<open>s.split(",")\<close> and \<open>s.strip()\<close>.
\<close>

definition nl :: string where
  "nl = [CHR 0x0A]"

definition dq :: string where
  "dq = [CHR 0x22]"

fun join :: "string \<Rightarrow> string list \<Rightarrow> string" where
  "join sep [] = []"
| "join sep [x] = x"
| "join sep (x # y # ys) = x @ sep @ join sep (y # ys)"

definition digit_char :: "nat \<Rightarrow> char" where
  "digit_char d = char_of (48 + d)"

fun str_nat :: "nat \<Rightarrow> string" where
  "str_nat n = (if n < 10 then [digit_char n] else str_nat (n div 10) @ [digit_char (n mod 10)])"

declare str_nat.simps [simp del]

text \<open>\<open>s.split(",")\<close>: the pieces between commas; always at least one piece.\<close>

fun split_comma :: "string \<Rightarrow> string list" where
  "split_comma [] = [[]]"
| "split_comma (c # cs) =
     (if c = CHR '','' then [] # split_comma cs
      else (case split_comma cs of [] \<Rightarrow> [[c]] | p # ps \<Rightarrow> (c # p) # ps))"

text \<open>
  \<open>s.strip()\<close> removes leading and trailing whitespace. Among the ASCII characters,
  Python's \<open>str\<close> counts 9 to 13, 28 to 31 and 32 as whitespace.
\<close>

definition is_space :: "char \<Rightarrow> bool" where
  "is_space c = (let k = (of_char c :: nat) in (9 \<le> k \<and> k \<le> 13) \<or> (28 \<le> k \<and> k \<le> 32))"

definition strip :: "string \<Rightarrow> string" where
  "strip s = rev (dropWhile is_space (rev (dropWhile is_space s)))"

text \<open>\<open>xs[-2:]\<close>: the last two elements, or all of them when there are fewer.\<close>

definition last_two :: "'a list \<Rightarrow> 'a list" where
  "last_two xs = drop (length xs - 2) xs"

section \<open>Tables\<close>

text \<open>
  A pandas DataFrame as the summariser uses it: named columns, each numeric or not, and
  the rows in index order. The row type is left open; rows are compared by value, which
  is what \<open>drop_duplicates\<close> does.
\<close>

datatype dtype = Numeric | Textual

record 'r table =
  columns :: "(string \<times> dtype) list"
  rows :: "'r list"

text \<open>\<open>len(df)\<close> and \<open>df.empty\<close> (true when either axis has length 0).\<close>

definition df_len :: "'r table \<Rightarrow> nat" where
  "df_len df = length (rows df)"

definition df_empty :: "'r table \<Rightarrow> bool" where
  "df_empty df = (rows df = [] \<or> columns df = [])"

text \<open>\<open>TelemetryData.get_df\<close>: the table of a message type, or \<open>None\<close>.\<close>

type_synonym 'r telemetry_data = "string \<Rightarrow> 'r table option"

section \<open>core/session\_store.py\<close>

record updated_session_metadata =
  last_msg_types :: "string list option"
  topics :: "string \<rightharpoonup> string"

record message =
  msg_role :: string
  msg_content :: string

record 'r session_store =
  telemetry :: "string \<rightharpoonup> 'r telemetry_data"
  intents :: "string \<rightharpoonup> string"
  conversation_history :: "string \<rightharpoonup> message list"
  metadata :: "string \<rightharpoonup> updated_session_metadata"
  cached_contexts :: "string \<rightharpoonup> (string \<rightharpoonup> string)"

text \<open>\<open>UpdatedSessionMetadata()\<close>: no last message types and a fresh, empty topics dict.\<close>

definition new_metadata :: updated_session_metadata where
  "new_metadata = \<lparr>last_msg_types = None, topics = Map.empty\<rparr>"

text \<open>\<open>SessionStore()\<close>: five empty dicts.\<close>

definition new_store :: "'r session_store" where
  "new_store = \<lparr>telemetry = Map.empty, intents = Map.empty, conversation_history = Map.empty,
                 metadata = Map.empty, cached_contexts = Map.empty\<rparr>"

definition get_telemetry :: "'r session_store \<Rightarrow> string \<Rightarrow> 'r telemetry_data option" where
  "get_telemetry st sid = telemetry st sid"

definition add_session :: "'r session_store \<Rightarrow> string \<Rightarrow> 'r telemetry_data \<Rightarrow> 'r session_store" where
  "add_session st sid data =
     st\<lparr>telemetry := (telemetry st)(sid \<mapsto> data), intents := (intents st)(sid \<mapsto> ''unknown'')\<rparr>"

definition set_intent :: "'r session_store \<Rightarrow> string \<Rightarrow> string \<Rightarrow> 'r session_store" where
  "set_intent st sid intent = st\<lparr>intents := (intents st)(sid \<mapsto> intent)\<rparr>"

definition get_intent :: "'r session_store \<Rightarrow> string \<Rightarrow> string" where
  "get_intent st sid = (case intents st sid of None \<Rightarrow> ''unknown'' | Some i \<Rightarrow> i)"

text \<open>
  \<open>set_topic\<close> creates the session's metadata record when it is missing and then stores
  the topic in the record's \<open>topics\<close> dict under the key \<open>session_id\<close> again.
\<close>

definition set_topic :: "'r session_store \<Rightarrow> string \<Rightarrow> string \<Rightarrow> 'r session_store" where
  "set_topic st sid topic =
     (let md = (case metadata st sid of None \<Rightarrow> new_metadata | Some md \<Rightarrow> md)
      in st\<lparr>metadata := (metadata st)(sid \<mapsto> md\<lparr>topics := (topics md)(sid \<mapsto> topic)\<rparr>)\<rparr>)"

definition get_topic :: "'r session_store \<Rightarrow> string \<Rightarrow> string" where
  "get_topic st sid =
     (let md = (case metadata st sid of None \<Rightarrow> new_metadata | Some md \<Rightarrow> md)
      in case topics md sid of None \<Rightarrow> [] | Some t \<Rightarrow> t)"

definition get_cached_context :: "'r session_store \<Rightarrow> string \<Rightarrow> string \<Rightarrow> string option" where
  "get_cached_context st sid msg_type =
     (case cached_contexts st sid of None \<Rightarrow> None | Some d \<Rightarrow> d msg_type)"

definition cache_context :: "'r session_store \<Rightarrow> string \<Rightarrow> string \<Rightarrow> string \<Rightarrow> 'r session_store" where
  "cache_context st sid msg_type summary =
     (let d = (case cached_contexts st sid of None \<Rightarrow> Map.empty | Some d \<Rightarrow> d)
      in st\<lparr>cached_contexts := (cached_contexts st)(sid \<mapsto> d(msg_type \<mapsto> summary))\<rparr>)"

definition set_last_msg_types :: "'r session_store \<Rightarrow> string \<Rightarrow> string list \<Rightarrow> 'r session_store" where
  "set_last_msg_types st sid msg_types =
     (let md = (case metadata st sid of None \<Rightarrow> new_metadata | Some md \<Rightarrow> md)
      in st\<lparr>metadata := (metadata st)(sid \<mapsto> md\<lparr>last_msg_types := Some msg_types\<rparr>)\<rparr>)"

definition get_last_msg_types :: "'r session_store \<Rightarrow> string \<Rightarrow> string list option" where
  "get_last_msg_types st sid =
     (case metadata st sid of None \<Rightarrow> None | Some md \<Rightarrow> last_msg_types md)"

definition has_session :: "'r session_store \<Rightarrow> string \<Rightarrow> bool" where
  "has_session st sid = (sid \<in> dom (telemetry st))"

definition add_message :: "'r session_store \<Rightarrow> string \<Rightarrow> string \<Rightarrow> string \<Rightarrow> 'r session_store" where
  "add_message st sid r c =
     (let h = (case conversation_history st sid of None \<Rightarrow> [] | Some h \<Rightarrow> h)
      in st\<lparr>conversation_history :=
            (conversation_history st)(sid \<mapsto> h @ [\<lparr>msg_role = r, msg_content = c\<rparr>])\<rparr>)"

definition get_history :: "'r session_store \<Rightarrow> string \<Rightarrow> message list" where
  "get_history st sid = (case conversation_history st sid of None \<Rightarrow> [] | Some h \<Rightarrow> h)"

text \<open>
  The mutating methods of the store as commands, so that a history of calls on one store
  is a list.
\<close>

datatype 'r store_call =
    AddSession string "'r telemetry_data"
  | SetIntent string string
  | SetTopic string string
  | CacheContext string string string
  | SetLastMsgTypes string "string list"
  | AddMessage string string string

fun store_step :: "'r session_store \<Rightarrow> 'r store_call \<Rightarrow> 'r session_store" where
  "store_step st (AddSession sid d) = add_session st sid d"
| "store_step st (SetIntent sid i) = set_intent st sid i"
| "store_step st (SetTopic sid t) = set_topic st sid t"
| "store_step st (CacheContext sid m s) = cache_context st sid m s"
| "store_step st (SetLastMsgTypes sid ms) = set_last_msg_types st sid ms"
| "store_step st (AddMessage sid r c) = add_message st sid r c"

definition store_run :: "'r session_store \<Rightarrow> 'r store_call list \<Rightarrow> 'r session_store" where
  "store_run st calls = foldl store_step st calls"

text \<open>Whether a call is \<open>set_topic\<close> on the given session.\<close>

fun sets_topic_of :: "string \<Rightarrow> 'r store_call \<Rightarrow> bool" where
  "sets_topic_of sid (SetTopic sid' t) = (sid' = sid)"
| "sets_topic_of sid _ = False"

text \<open>No topic is stored for a session: its metadata record is missing or has no entry.\<close>

definition topic_unset :: "'r session_store \<Rightarrow> string \<Rightarrow> bool" where
  "topic_unset st sid = (case metadata st sid of None \<Rightarrow> True | Some md \<Rightarrow> topics md sid = None)"

text \<open>A topic is stored for a session.\<close>

definition topic_is :: "'r session_store \<Rightarrow> string \<Rightarrow> string \<Rightarrow> bool" where
  "topic_is st sid t = (case metadata st sid of None \<Rightarrow> False | Some md \<Rightarrow> topics md sid = Some t)"

section \<open>service/summariser.py\<close>

text \<open>
  The summariser calls pandas and the json module. What these libraries compute is taken
  as given, in a record of functions; only the shape of their output that the repository
  relies on is written out. Library calls are taken to return. JSON values are as
  \<open>json.loads\<close> returns them; integers stand for all numbers, whose value plays no
  role here.
\<close>

datatype json =
    JNull
  | JBool bool
  | JNum int
  | JStr string
  | JArr "json list"
  | JObj "(string \<times> json) list"

record ('r, 'd) library =
  record_json :: "(string \<times> dtype) list \<Rightarrow> 'r \<Rightarrow> string"
  describe :: "'r table \<Rightarrow> 'd"
  dumps_digest :: "'d \<Rightarrow> string"
  json_loads :: "string \<Rightarrow> json"
  dumps_nested :: "json \<Rightarrow> string"

text \<open>
  \<open>df.to_json(orient="records")\<close>: a JSON array with one object per row, in row order,
  separated by commas. \<open>record_json\<close> is the text of one row's object.
\<close>

definition to_json :: "('r, 'd) library \<Rightarrow> 'r table \<Rightarrow> string" where
  "to_json L df = ''['' @ join '','' (map (record_json L (columns df)) (rows df)) @ '']''"

text \<open>
  Python's \<open>xs[a:b]\<close> (\<open>df.iloc[a:b]\<close>): a negative bound counts from the end, and
  bounds are clipped to the length.
\<close>

definition slice_bound :: "nat \<Rightarrow> int \<Rightarrow> nat" where
  "slice_bound n i = (if i < 0 then nat (max 0 (int n + i)) else min (nat i) n)"

definition iloc :: "int \<Rightarrow> int \<Rightarrow> 'a list \<Rightarrow> 'a list" where
  "iloc a b xs = drop (slice_bound (length xs) a) (take (slice_bound (length xs) b) xs)"

text \<open>\<open>df.head(k)\<close> and \<open>df.tail(k)\<close> for \<open>k \<ge> 0\<close>.\<close>

definition head :: "nat \<Rightarrow> 'a list \<Rightarrow> 'a list" where
  "head k xs = take k xs"

definition tail :: "nat \<Rightarrow> 'a list \<Rightarrow> 'a list" where
  "tail k xs = drop (length xs - k) xs"

text \<open>
  \<open>drop_duplicates()\<close>: rows are scanned in order and a row whose values have been seen
  before is dropped, so the first occurrence stays.
\<close>

fun drop_seen :: "'a list \<Rightarrow> 'a list \<Rightarrow> 'a list" where
  "drop_seen seen [] = []"
| "drop_seen seen (x # xs) =
     (if x \<in> set seen then drop_seen seen xs else x # drop_seen (x # seen) xs)"

definition drop_duplicates :: "'a list \<Rightarrow> 'a list" where
  "drop_duplicates xs = drop_seen [] xs"

text \<open>\<open>df.iloc[::step]\<close> for \<open>step \<ge> 1\<close>: the rows at positions 0, step, 2 step, ...\<close>

fun stride :: "nat \<Rightarrow> 'a list \<Rightarrow> 'a list" where
  "stride step [] = []"
| "stride step (x # xs) = x # stride step (drop (step - 1) xs)"

text \<open>
  \<open>_sample_df\<close>. Its only call passes \<open>keep_rows = 300\<close>; a \<open>keep_rows\<close> of 0, on
  which Python's \<open>//\<close> raises, is never passed.
\<close>

definition sample_df :: "('r, 'd) library \<Rightarrow> 'r table \<Rightarrow> nat \<Rightarrow> string" where
  "sample_df L df keep_rows =
     (if df_len df \<le> keep_rows then to_json L df
      else (let step = max 1 (df_len df div keep_rows)
            in to_json L (df\<lparr>rows := stride step (rows df)\<rparr>)))"

definition describe_df :: "('r, 'd) library \<Rightarrow> 'r table \<Rightarrow> string" where
  "describe_df L df = dumps_digest L (describe L df)"

text \<open>
  \<open>json.dumps(d, indent=2)\<close> of a dict whose keys are plain words: one line per item,
  indented by two spaces. A value is either a parsed JSON value, whose nested text is
  the library's, or a Python string of letters, digits and spaces, which is quoted as it is.
\<close>

datatype pyvalue = Parsed json | PyStr string

fun value_text :: "('r, 'd) library \<Rightarrow> pyvalue \<Rightarrow> string" where
  "value_text L (Parsed j) = dumps_nested L j"
| "value_text L (PyStr s) = dq @ s @ dq"

definition dumps_indent2 :: "('r, 'd) library \<Rightarrow> (string \<times> pyvalue) list \<Rightarrow> string" where
  "dumps_indent2 L items =
     (if items = [] then ''{}''
      else ''{'' @ nl
           @ join ('','' @ nl) (map (\<lambda>(k, v). ''  '' @ dq @ k @ dq @ '': '' @ value_text L v) items)
           @ nl @ ''}'')"

definition summarise_df :: "('r, 'd) library \<Rightarrow> nat \<Rightarrow> 'r table \<Rightarrow> string" where
  "summarise_df L max_rows df =
     (let n = df_len df in
      if n \<le> 500 then to_json L df
      else if n \<le> max_rows then
        (let hd_rows = head 300 (rows df);
             mid = iloc (int n div 2 - 150) (int n div 2 + 150) (rows df);
             tl_rows = tail 300 (rows df);
             merged = drop_duplicates (hd_rows @ mid @ tl_rows)
         in to_json L (df\<lparr>rows := merged\<rparr>))
      else
        (let stats = describe_df L df;
             sample = sample_df L df 300
         in dumps_indent2 L
              [(''sample'', Parsed (json_loads L sample)),
               (''summary'', Parsed (json_loads L stats)),
               (''note'', PyStr (''Sampled from '' @ str_nat n @ '' rows to fit context limits''))]))"

text \<open>The default of \<open>max_rows\<close>, which \<open>build_context\<close> uses.\<close>

definition max_rows_default :: nat where
  "max_rows_default = 10000"

text \<open>
  \<open>build_context\<close>. The set of message types is given as the list in which the loop
  visits it. The loop carries the sections so far and the store; the model also keeps a
  log of the calls to the telemetry accessor and to \<open>summarise_df\<close>, which the source
  does not have, so that claims about what is fetched or recomputed can be stated.
\<close>

datatype probe = Fetched string | Summarised string

definition section_cached :: "string \<Rightarrow> string \<Rightarrow> string" where
  "section_cached m cached = ''### '' @ m @ '' (cached)'' @ nl @ cached"

definition section_fresh :: "string \<Rightarrow> nat \<Rightarrow> string \<Rightarrow> string" where
  "section_fresh m n summary = ''### '' @ m @ '' ('' @ str_nat n @ '' rows)'' @ nl @ summary"

text \<open>The loop body after a cache miss: fetch, skip an absent or empty table, summarise, cache.\<close>

definition fetch_step ::
  "('r, 'd) library \<Rightarrow> 'r telemetry_data \<Rightarrow> string \<Rightarrow> string \<Rightarrow>
   string list \<times> 'r session_store \<times> probe list \<Rightarrow> string list \<times> 'r session_store \<times> probe list"
where
  "fetch_step L tdata sid m acc =
     (case acc of (parts, store, log) \<Rightarrow>
       (case tdata m of
          None \<Rightarrow> (parts, store, log @ [Fetched m])
        | Some df \<Rightarrow>
            if df_empty df then (parts, store, log @ [Fetched m])
            else (let summary = summarise_df L max_rows_default df
                  in (parts @ [section_fresh m (df_len df) summary],
                      cache_context store sid m summary,
                      log @ [Fetched m, Summarised m]))))"

text \<open>The loop body: a cached summary that is a non-empty string is used as it is.\<close>

definition build_step ::
  "('r, 'd) library \<Rightarrow> 'r telemetry_data \<Rightarrow> string \<Rightarrow> string \<Rightarrow>
   string list \<times> 'r session_store \<times> probe list \<Rightarrow> string list \<times> 'r session_store \<times> probe list"
where
  "build_step L tdata sid m acc =
     (case acc of (parts, store, log) \<Rightarrow>
       (case get_cached_context store sid m of
          Some cached \<Rightarrow>
            if cached \<noteq> [] then (parts @ [section_cached m cached], store, log)
            else fetch_step L tdata sid m acc
        | None \<Rightarrow> fetch_step L tdata sid m acc))"

fun build_loop ::
  "('r, 'd) library \<Rightarrow> 'r telemetry_data \<Rightarrow> string \<Rightarrow> string list \<Rightarrow>
   string list \<times> 'r session_store \<times> probe list \<Rightarrow> string list \<times> 'r session_store \<times> probe list"
where
  "build_loop L tdata sid [] acc = acc"
| "build_loop L tdata sid (m # ms) acc = build_loop L tdata sid ms (build_step L tdata sid m acc)"

text \<open>
  \<open>build_context\<close> returns the text; the model returns the store after the call and the
  log with it.
\<close>

definition build_context ::
  "('r, 'd) library \<Rightarrow> 'r telemetry_data \<Rightarrow> string list \<Rightarrow> string \<Rightarrow> 'r session_store \<Rightarrow>
   string \<times> 'r session_store \<times> probe list"
where
  "build_context L tdata msg_types sid store =
     (case build_loop L tdata sid msg_types ([], store, []) of (parts, store', log) \<Rightarrow>
       (let text = join (nl @ nl) parts
        in (if text \<noteq> [] then text else ''No relevant data found.'', store', log)))"

text \<open>An instance of the library record, for evaluating the model at concrete tables.\<close>

definition example_library :: "(nat, unit) library" where
  "example_library =
     \<lparr>record_json = (\<lambda>cols r. str_nat r), describe = (\<lambda>df. ()), dumps_digest = (\<lambda>d. ''{}''),
      json_loads = (\<lambda>s. JNull), dumps_nested = (\<lambda>j. ''null'')\<rparr>"

text \<open>
  \<open>DataFrame.describe()\<close> with its default arguments, as pandas documents it: when the
  frame has numeric columns, these and no others are analysed; when it has none, all its
  columns are analysed. The statistics of one column are the library's (\<open>column_stats\<close>).
  The result maps each analysed column to its statistics.
\<close>

definition describe_default ::
  "('r table \<Rightarrow> string \<Rightarrow> 's) \<Rightarrow> 'r table \<Rightarrow> (string \<times> 's) list" where
  "describe_default column_stats df =
     (let numeric = filter (\<lambda>c. snd c = Numeric) (columns df);
          selected = (if numeric = [] then columns df else numeric)
      in map (\<lambda>c. (fst c, column_stats df (fst c))) selected)"




text \<open>
  An identifier that yields no section: no usable cached summary, and the telemetry
  accessor returns no table or an empty one.
\<close>

definition no_section :: "'r telemetry_data \<Rightarrow> string \<Rightarrow> 'r session_store \<Rightarrow> string \<Rightarrow> bool" where
  "no_section tdata sid store m =
     ((case get_cached_context store sid m of None \<Rightarrow> True | Some c \<Rightarrow> c = [])
      \<and> (case tdata m of None \<Rightarrow> True | Some df \<Rightarrow> df_empty df))"


section \<open>service/llm\_router.py\<close>

text \<open>
  The reasoning backend \<open>_llm\<close> is a remote chat model. A call either raises (a
  timeout after 8 seconds, a connection error) or returns a response, of which the
  router reads the text \<open>content\<close> and the dict \<open>additional_kwargs["function_call"]\<close>
  (absent, or a dict of strings with the keys \<open>name\<close> and \<open>arguments\<close>). The answer
  may differ from one call to the next, so the backend is a function of the number of
  earlier calls and of the request.
\<close>

datatype exn =
    APITimeoutError
  | APIConnectionError
  | JSONDecodeError
  | KeyError
  | AttributeError
  | TypeError

datatype system_message = SYSTEM | REFINER_SYSTEM

record request =
  req_system :: system_message
  req_user :: string
  req_functions :: "string list option"

record response =
  content :: string
  function_call :: "(string \<times> string) list option"

type_synonym llm = "nat \<Rightarrow> request \<Rightarrow> exn + response"

text \<open>
  \<open>make_func_spec\<close>: everything in the function description is constant except the
  \<open>enum\<close> of the array items, \<open>sorted(supported_types)\<close>; the model keeps the enum.
\<close>

definition make_func_spec :: "string set \<Rightarrow> string list" where
  "make_func_spec supported_types = sorted_list_of_set supported_types"

text \<open>The context paragraph built from the last two recent user messages.\<close>

definition recent_context :: "string list \<Rightarrow> string" where
  "recent_context recent_user_msgs =
     (if recent_user_msgs \<noteq> []
      then nl @ nl @ ''Recent conversation context (for reference only, focus on the current question):''
           @ nl @ join nl (map (\<lambda>msg. ''- '' @ msg) (last_two recent_user_msgs))
      else [])"

text \<open>
  \<open>set(payload.get("message_types", []))\<close> for the value that \<open>json.loads\<close> returned.
  Only a dict has \<open>get\<close>; \<open>set\<close> iterates a list (whose elements must be hashable, so
  no lists or dicts), the characters of a string, or the keys of a dict, and raises on
  anything else. A \<open>JObj\<close> stands for a Python dict, so its keys are distinct.
\<close>

fun hashable :: "json \<Rightarrow> bool" where
  "hashable (JArr xs) = False"
| "hashable (JObj kvs) = False"
| "hashable j = True"

fun py_set :: "json \<Rightarrow> exn + json list" where
  "py_set (JArr xs) = (if list_all hashable xs then Inr xs else Inl TypeError)"
| "py_set (JStr s) = Inr (map (\<lambda>c. JStr [c]) s)"
| "py_set (JObj kvs) = Inr (map (\<lambda>kv. JStr (fst kv)) kvs)"
| "py_set j = Inl TypeError"

fun payload_message_types :: "json \<Rightarrow> exn + json list" where
  "payload_message_types (JObj kvs) =
     (case map_of kvs ''message_types'' of None \<Rightarrow> Inr [] | Some v \<Rightarrow> py_set v)"
| "payload_message_types j = Inl AttributeError"

text \<open>
  \<open>elems & types\<close>: \<open>types\<close> holds strings, and a JSON value equals a string only when
  it is that string.
\<close>

fun json_strings :: "json list \<Rightarrow> string list" where
  "json_strings [] = []"
| "json_strings (JStr s # js) = s # json_strings js"
| "json_strings (j # js) = json_strings js"

definition intersect_types :: "json list \<Rightarrow> string set \<Rightarrow> string set" where
  "intersect_types elems types = set (json_strings elems) \<inter> types"

text \<open>
  The body of \<open>infer_message_types_llm\<close>, below the \<open>lru_cache\<close> decorator. The backend
  call and \<open>json.loads\<close> are the two library calls that can raise; nothing in the body
  catches an exception. \<open>json.loads\<close> is a parameter.
\<close>

definition infer_body ::
  "(request \<Rightarrow> exn + response) \<Rightarrow> (string \<Rightarrow> exn + json) \<Rightarrow>
   string \<Rightarrow> string list \<Rightarrow> string set \<Rightarrow> exn + string set"
where
  "infer_body call_llm loads question recent_user_msgs types =
     (let user = ''Current question: '' @ question @ recent_context recent_user_msgs
      in case call_llm \<lparr>req_system = SYSTEM, req_user = user,
                        req_functions = Some (make_func_spec types)\<rparr> of
           Inl e \<Rightarrow> Inl e
         | Inr resp \<Rightarrow>
             (case function_call resp of
                None \<Rightarrow> Inr {''ERR''}
              | Some fc \<Rightarrow>
                  if fc = [] then Inr {''ERR''}
                  else (case map_of fc ''arguments'' of
                          None \<Rightarrow> Inl KeyError
                        | Some arguments \<Rightarrow>
                            (case loads arguments of
                               Inl e \<Rightarrow> Inl e
                             | Inr payload \<Rightarrow>
                                 (case payload_message_types payload of
                                    Inl e \<Rightarrow> Inl e
                                  | Inr elems \<Rightarrow>
                                      (let selected = intersect_types elems types
                                       in Inr (if selected \<noteq> {} then selected else {''ERR''})))))))"

text \<open>
  \<open>@lru_cache(maxsize=256)\<close>. The cache is keyed by the argument tuple and kept with
  the most recently used entry first. A hit returns the stored result and moves the entry
  to the front; a miss runs the body, and when the body returns, stores the result in
  front and drops the least recently used entry beyond 256. A raised exception is not
  stored. The model also logs the keys for which the backend was called.
\<close>

type_synonym selector_key = "string \<times> string list \<times> string set"

record selector_state =
  lru :: "(selector_key \<times> string set) list"
  backend_calls :: "selector_key list"

definition new_selector_state :: selector_state where
  "new_selector_state = \<lparr>lru = [], backend_calls = []\<rparr>"

definition maxsize :: nat where
  "maxsize = 256"

definition infer_message_types_llm ::
  "llm \<Rightarrow> (string \<Rightarrow> exn + json) \<Rightarrow> selector_key \<Rightarrow> selector_state \<Rightarrow>
   (exn + string set) \<times> selector_state"
where
  "infer_message_types_llm backend loads key st =
     (case map_of (lru st) key of
        Some result \<Rightarrow>
          (Inr result, st\<lparr>lru := (key, result) # filter (\<lambda>e. fst e \<noteq> key) (lru st)\<rparr>)
      | None \<Rightarrow>
          (case key of (question, recent_user_msgs, types) \<Rightarrow>
            (let st1 = st\<lparr>backend_calls := backend_calls st @ [key]\<rparr>
             in case infer_body (backend (length (backend_calls st))) loads
                       question recent_user_msgs types of
                  Inl e \<Rightarrow> (Inl e, st1)
                | Inr result \<Rightarrow>
                    (Inr result, st1\<lparr>lru := take maxsize ((key, result) # lru st)\<rparr>))))"

text \<open>A sequence of calls, with the result of each.\<close>

fun infer_calls ::
  "llm \<Rightarrow> (string \<Rightarrow> exn + json) \<Rightarrow> selector_key list \<Rightarrow> selector_state \<Rightarrow>
   (exn + string set) list \<times> selector_state"
where
  "infer_calls backend loads [] st = ([], st)"
| "infer_calls backend loads (key # keys) st =
     (case infer_message_types_llm backend loads key st of (r, st1) \<Rightarrow>
       (case infer_calls backend loads keys st1 of (rs, st2) \<Rightarrow> (r # rs, st2)))"

text \<open>
  \<open>refine_types_with_llm\<close>, which is not cached. A non-empty reply is split at commas
  and the stripped, non-empty pieces are returned; an empty reply returns the candidates.
\<close>

definition refine_types_with_llm ::
  "(request \<Rightarrow> exn + response) \<Rightarrow> string \<Rightarrow> string list \<Rightarrow> string list \<Rightarrow> exn + string set"
where
  "refine_types_with_llm call_llm question recent_user_msgs raw_types =
     (let user = ''Original question: '' @ question @ recent_context recent_user_msgs @ nl @ nl
                 @ ''Candidate types: '' @ join '', '' (sort raw_types) @ nl @ nl
                 @ ''Return the refined list of message types that are *most relevant* and *minimally sufficient* ''
                 @ ''to answer the current question. Focus primarily on the current question and only use recent messages ''
                 @ ''if they provide necessary context. Respond ONLY with a comma-separated list (no commentary).''
      in case call_llm \<lparr>req_system = REFINER_SYSTEM, req_user = user, req_functions = None\<rparr> of
           Inl e \<Rightarrow> Inl e
         | Inr resp \<Rightarrow>
             if content resp \<noteq> []
             then Inr (set (map strip (filter (\<lambda>t. strip t \<noteq> []) (split_comma (content resp)))))
             else Inr (set raw_types))"

text \<open>What the selector may return for a key: a non-empty set of valid identifiers or \<open>ERR\<close>.\<close>

definition valid_result :: "selector_key \<Rightarrow> string set \<Rightarrow> bool" where
  "valid_result key result = (result \<noteq> {} \<and> result \<subseteq> snd (snd key) \<union> {''ERR''})"

definition valid_cache :: "selector_state \<Rightarrow> bool" where
  "valid_cache st = list_all (\<lambda>e. valid_result (fst e) (snd e)) (lru st)"

text \<open>A backend answer that calls the function with the given arguments text.\<close>

definition function_call_response :: "string \<Rightarrow> response" where
  "function_call_response arguments =
     \<lparr>content = [], function_call = Some [(''name'', ''select_log_types''), (''arguments'', arguments)]\<rparr>"

text \<open>
  The cache entry of a key is present before each call of a sequence and after the last:
  it has not been evicted.
\<close>

fun cached_throughout ::
  "llm \<Rightarrow> (string \<Rightarrow> exn + json) \<Rightarrow> selector_key \<Rightarrow> selector_key list \<Rightarrow> selector_state \<Rightarrow> bool"
where
  "cached_throughout backend loads key [] st = (map_of (lru st) key \<noteq> None)"
| "cached_throughout backend loads key (k # keys) st =
     (map_of (lru st) key \<noteq> None
      \<and> cached_throughout backend loads key keys (snd (infer_message_types_llm backend loads k st)))"

text \<open>The shape of the cache: distinct keys, at most \<open>maxsize\<close> entries.\<close>

definition lru_ok :: "selector_state \<Rightarrow> bool" where
  "lru_ok st = (distinct (map fst (lru st)) \<and> length (lru st) \<le> maxsize)"

text \<open>The entries used more recently than the entry of a key.\<close>

definition ahead :: "selector_key \<Rightarrow> (selector_key \<times> string set) list \<Rightarrow> (selector_key \<times> string set) list" where
  "ahead key c = takeWhile (\<lambda>e. fst e \<noteq> key) c"

text \<open>
  A backend whose first answer selects \<open>GPS\<close> and whose later answers select \<open>ATT\<close>,
  with a decoder for the two arguments texts it sends; for evaluating the cache.
\<close>

definition example_backend :: llm where
  "example_backend n req = Inr (function_call_response (if n = 0 then ''gps'' else ''att''))"

definition example_loads :: "string \<Rightarrow> exn + json" where
  "example_loads s =
     (if s = ''gps'' then Inr (JObj [(''message_types'', JArr [JStr ''GPS''])])
      else if s = ''att'' then Inr (JObj [(''message_types'', JArr [JStr ''ATT''])])
      else Inl JSONDecodeError)"

section \<open>Session topics\<close>

lemma get_topic_set_topic: "get_topic (set_topic st sid t) sid = t"
  by (simp add: get_topic_def set_topic_def Let_def)

lemma topic_unset_new: "topic_unset new_store sid"
  by (simp add: topic_unset_def new_store_def)

lemma topic_unset_step:
  "topic_unset st sid \<Longrightarrow> \<not> sets_topic_of sid c \<Longrightarrow> topic_unset (store_step st c) sid"
  by (cases c)
     (auto simp: topic_unset_def add_session_def set_intent_def set_topic_def cache_context_def
        set_last_msg_types_def add_message_def new_metadata_def Let_def split: option.splits)

lemma topic_unset_run:
  "topic_unset st sid \<Longrightarrow> \<forall>c \<in> set calls. \<not> sets_topic_of sid c \<Longrightarrow>
   topic_unset (store_run st calls) sid"
  unfolding store_run_def
  by (induction calls arbitrary: st) (simp_all add: topic_unset_step)

lemma topic_unset_get: "topic_unset st sid \<Longrightarrow> get_topic st sid = []"
  by (auto simp: topic_unset_def get_topic_def new_metadata_def Let_def split: option.splits)

lemma topic_is_set_topic: "topic_is (set_topic st sid t) sid t"
  by (simp add: topic_is_def set_topic_def Let_def)

lemma topic_is_step:
  "topic_is st sid t \<Longrightarrow> \<not> sets_topic_of sid c \<Longrightarrow> topic_is (store_step st c) sid t"
  by (cases c)
     (auto simp: topic_is_def add_session_def set_intent_def set_topic_def cache_context_def
        set_last_msg_types_def add_message_def new_metadata_def Let_def split: option.splits)

lemma topic_is_run:
  "topic_is st sid t \<Longrightarrow> \<forall>c \<in> set calls. \<not> sets_topic_of sid c \<Longrightarrow>
   topic_is (store_run st calls) sid t"
  unfolding store_run_def
  by (induction calls arbitrary: st) (simp_all add: topic_is_step)

lemma topic_is_get: "topic_is st sid t \<Longrightarrow> get_topic st sid = t"
  by (auto simp: topic_is_def get_topic_def Let_def split: option.splits)

text \<open>
  Claim C10. After \<open>set_topic(s, t)\<close>, \<open>get_topic(s)\<close> returns \<open>t\<close>, also after any
  further calls on the store that are not \<open>set_topic\<close> on \<open>s\<close>; a later
  \<open>set_topic(s, t')\<close> overwrites it; and on a store where \<open>set_topic\<close> was never called
  for \<open>s\<close> (any history of other calls on a new store), \<open>get_topic(s)\<close> is the empty
  string. The topic sits in the session's metadata record under the key \<open>s\<close> again; the
  double keying does not disturb any of this.
\<close>

theorem set_topic_get_topic:
  "((\<forall>c \<in> set calls. \<not> sets_topic_of s c) \<longrightarrow>
       get_topic (store_run (set_topic st s t) calls) s = t
     \<and> get_topic (set_topic (store_run (set_topic st s t) calls) s t') s = t')
   \<and> ((\<forall>c \<in> set calls. \<not> sets_topic_of s c) \<longrightarrow>
        get_topic (store_run (new_store :: 'r session_store) calls) s = [])"
proof -
  have "(\<forall>c \<in> set calls. \<not> sets_topic_of s c) \<Longrightarrow>
        get_topic (store_run (new_store :: 'r session_store) calls) s = []"
    using topic_unset_run [OF topic_unset_new] topic_unset_get by blast
  moreover have "(\<forall>c \<in> set calls. \<not> sets_topic_of s c) \<Longrightarrow>
        get_topic (store_run (set_topic st s t) calls) s = t"
    using topic_is_run [OF topic_is_set_topic] topic_is_get by blast
  ultimately show ?thesis
    by (simp add: get_topic_set_topic)
qed

theorem set_topic_get_topic_witness:
  "get_topic (store_run (set_topic (new_store :: nat session_store) ''s1'' ''climb'')
        [SetTopic ''s2'' ''x'', SetLastMsgTypes ''s1'' [''GPS''], SetIntent ''s1'' ''factual'']) ''s1''
      = ''climb''
   \<and> get_topic (set_topic (store_run (set_topic (new_store :: nat session_store) ''s1'' ''climb'')
        [SetTopic ''s2'' ''x'', SetLastMsgTypes ''s1'' [''GPS''], SetIntent ''s1'' ''factual''])
        ''s1'' ''descent'') ''s1'' = ''descent''
   \<and> get_topic (store_run (new_store :: nat session_store)
        [SetTopic ''s2'' ''x'', SetLastMsgTypes ''s1'' [''GPS''], SetIntent ''s1'' ''factual'']) ''s1''
      = []"
  using set_topic_get_topic [of "[SetTopic ''s2'' ''x'', SetLastMsgTypes ''s1'' [''GPS''],
      SetIntent ''s1'' ''factual'']" "''s1''" "new_store :: nat session_store" "''climb''" "''descent''"]
  by simp

section \<open>Row summariser\<close>

subsection \<open>Removing duplicate rows\<close>







subsection \<open>The middle tier\<close>





subsection \<open>The large tier\<close>





lemma summarise_df_large_eq:
  assumes "10000 < df_len df"
  shows "summarise_df L 10000 df =
           dumps_indent2 L
             [(''sample'', Parsed (json_loads L
                 (to_json L (df\<lparr>rows := stride (df_len df div 300) (rows df)\<rparr>)))),
              (''summary'', Parsed (json_loads L (dumps_digest L (describe L df)))),
              (''note'', PyStr (''Sampled from '' @ str_nat (df_len df) @ '' rows to fit context limits''))]"
proof -
  have "max 1 (df_len df div 300) = df_len df div 300"
    using assms by simp
  then show ?thesis
    using assms by (simp add: summarise_df_def Let_def sample_df_def describe_df_def)
qed



subsection \<open>The digest of a table without numeric columns\<close>

lemma describe_default_numeric:
  assumes "\<exists>c \<in> set (columns df). snd c = Numeric"
  shows "map fst (describe_default column_stats df)
         = map fst (filter (\<lambda>c. snd c = Numeric) (columns df))"
proof -
  have "filter (\<lambda>c. snd c = Numeric) (columns df) \<noteq> []"
    using assms by (simp add: filter_empty_conv)
  then show ?thesis
    by (simp add: describe_default_def Let_def comp_def)
qed

text \<open>
  Claim C6, at a table of 10001 rows whose only column is textual. With pandas' default
  \<open>describe\<close> the digest is not empty: it has an entry for the textual column, and that
  digest is what the \<open>summary\<close> key holds.
\<close>

theorem describe_text_only_table:
  "(let df = \<lparr>columns = [(''Message'', Textual)], rows = replicate 10001 r\<rparr>;
        L' = L\<lparr>describe := describe_default column_stats\<rparr>
    in describe L' df = [(''Message'', column_stats df ''Message'')]
       \<and> summarise_df L' 10000 df =
           dumps_indent2 L'
             [(''sample'', Parsed (json_loads L' (to_json L' (df\<lparr>rows := stride 33 (rows df)\<rparr>)))),
              (''summary'', Parsed (json_loads L'
                 (dumps_digest L' [(''Message'', column_stats df ''Message'')]))),
              (''note'', PyStr (''Sampled from '' @ str_nat 10001 @ '' rows to fit context limits''))])"
proof -
  let ?df = "\<lparr>columns = [(''Message'', Textual)], rows = replicate 10001 r\<rparr>"
  let ?L = "L\<lparr>describe := describe_default column_stats\<rparr>"
  have n: "df_len ?df = 10001" by (simp add: df_len_def)
  have d: "describe ?L ?df = [(''Message'', column_stats ?df ''Message'')]"
    by (simp add: describe_default_def)
  have "10000 < df_len ?df" using n by simp
  from summarise_df_large_eq [OF this, of ?L] show ?thesis
    unfolding Let_def using d n by simp
qed

section \<open>Context builder\<close>















lemma build_loop_nothing:
  assumes "\<forall>m \<in> set ms. no_section tdata sid store m"
  shows "build_loop L tdata sid ms (parts, store, log) = (parts, store, log @ map Fetched ms)"
  using assms
proof (induction ms arbitrary: log)
  case Nil
  then show ?case by simp
next
  case (Cons m ms)
  then have "no_section tdata sid store m" by simp
  then have "build_step L tdata sid m (parts, store, log) = (parts, store, log @ [Fetched m])"
    by (auto simp: no_section_def build_step_def fetch_step_def split: option.splits)
  then show ?case using Cons by simp
qed

text \<open>
  Claim C7. If no requested identifier yields a section (none has a usable cached summary,
  and for each the telemetry accessor returns no table or an empty table), then
  \<open>build_context\<close> returns the string "No relevant data found." and leaves the store as
  it was. On every input the returned text is not the empty string.
\<close>

theorem build_context_fallback:
  "((\<forall>m \<in> set ms. no_section tdata sid store m) \<longrightarrow>
      build_context L tdata ms sid store = (''No relevant data found.'', store, map Fetched ms))
   \<and> fst (build_context L tdata ms sid store) \<noteq> []"
proof -
  have "build_context L tdata ms sid store = (''No relevant data found.'', store, map Fetched ms)"
    if "\<forall>m \<in> set ms. no_section tdata sid store m"
    using build_loop_nothing [OF that, of L "[]" "[]"] by (simp add: build_context_def)
  moreover have "fst (build_context L tdata ms sid store) \<noteq> []"
    by (cases "build_loop L tdata sid ms ([], store, [])")
       (simp add: build_context_def Let_def)
  ultimately show ?thesis by blast
qed

theorem build_context_fallback_witness:
  "build_context example_library
     (\<lambda>m. if m = ''GPS'' then Some \<lparr>columns = [(''TimeUS'', Numeric)], rows = []\<rparr> else None)
     [''GPS'', ''ATT''] ''s1'' new_store
   = (''No relevant data found.'', new_store, [Fetched ''GPS'', Fetched ''ATT''])"
  using build_context_fallback [of "[''GPS'', ''ATT'']"
      "\<lambda>m. if m = ''GPS'' then Some \<lparr>columns = [(''TimeUS'', Numeric)], rows = []\<rparr> else None"
      "''s1''" new_store example_library]
  by (simp add: no_section_def get_cached_context_def new_store_def df_empty_def)



section \<open>Type selector\<close>

lemma infer_body_valid:
  "infer_body call_llm loads question recent types = Inr S \<Longrightarrow>
   S \<noteq> {} \<and> S \<subseteq> types \<union> {''ERR''}"
  by (auto simp: infer_body_def Let_def intersect_types_def
      split: sum.splits option.splits if_splits)

lemma valid_cache_step:
  assumes "valid_cache st"
    and "infer_message_types_llm backend loads key st = (r, st1)"
  shows "valid_cache st1 \<and> (\<forall>S. r = Inr S \<longrightarrow> valid_result key S)"
proof (cases "map_of (lru st) key")
  case (Some v)
  then have "(key, v) \<in> set (lru st)" by (rule map_of_SomeD)
  then have "valid_result key v"
    using assms(1) by (auto simp: valid_cache_def list_all_iff)
  then show ?thesis
    using assms Some by (auto simp: infer_message_types_llm_def valid_cache_def list_all_iff)
next
  case None
  obtain q rc ty where key: "key = (q, rc, ty)" by (cases key) auto
  show ?thesis
  proof (cases "infer_body (backend (length (backend_calls st))) loads q rc ty")
    case (Inl e)
    then show ?thesis
      using assms None key by (auto simp: infer_message_types_llm_def valid_cache_def Let_def)
  next
    case (Inr v)
    then have v: "valid_result key v"
      using infer_body_valid [OF Inr] by (simp add: valid_result_def key)
    have "\<forall>e \<in> set (take maxsize (lru st)). valid_result (fst e) (snd e)"
      using assms(1) by (auto simp: valid_cache_def list_all_iff dest: in_set_takeD)
    then have "\<forall>e \<in> set (take maxsize ((key, v) # lru st)). valid_result (fst e) (snd e)"
      using v assms(1) by (auto simp: valid_cache_def list_all_iff dest!: in_set_takeD)
    then show ?thesis
      using assms None key Inr v
      by (auto simp: infer_message_types_llm_def valid_cache_def Let_def list_all_iff)
  qed
qed

lemma valid_cache_calls:
  assumes "valid_cache st"
    and "infer_calls backend loads keys st = (rs, st')"
  shows "length rs = length keys \<and> valid_cache st'
       \<and> (\<forall>i < length keys. \<forall>S. rs ! i = Inr S \<longrightarrow> valid_result (keys ! i) S)"
  using assms
proof (induction keys arbitrary: st rs st')
  case Nil
  then show ?case by simp
next
  case (Cons k keys)
  obtain r st1 where s1: "infer_message_types_llm backend loads k st = (r, st1)"
    by (cases "infer_message_types_llm backend loads k st") auto
  obtain rs1 st2 where s2: "infer_calls backend loads keys st1 = (rs1, st2)"
    by (cases "infer_calls backend loads keys st1") auto
  have rs: "rs = r # rs1" and st': "st' = st2"
    using Cons.prems(2) s1 s2 by simp_all
  note step = valid_cache_step [OF Cons.prems(1) s1]
  from step have v1: "valid_cache st1" by simp
  note ih = Cons.IH [OF v1 s2]
  have "\<forall>S. (r # rs1) ! i = Inr S \<longrightarrow> valid_result ((k # keys) ! i) S"
    if "i < length (k # keys)" for i
    using that step ih by (cases i) auto
  then show ?case using ih rs st' by simp
qed

text \<open>
  Claim C3. In any sequence of calls of \<open>infer_message_types_llm\<close> on a fresh cache,
  every call that returns a set (from the backend or from the cache) returns a non-empty
  subset of the call's valid identifiers united with \<open>{"ERR"}\<close>. Calls that raise return
  no set; they are the subject of claim C1.
\<close>

theorem selection_result_valid:
  "length (fst (infer_calls backend loads keys new_selector_state)) = length keys
   \<and> (\<forall>i < length keys. \<forall>S.
        fst (infer_calls backend loads keys new_selector_state) ! i = Inr S \<longrightarrow>
        S \<noteq> {} \<and> S \<subseteq> snd (snd (keys ! i)) \<union> {''ERR''})"
proof -
  have "valid_cache new_selector_state"
    by (simp add: valid_cache_def new_selector_state_def)
  from valid_cache_calls [OF this, of backend loads keys
      "fst (infer_calls backend loads keys new_selector_state)"
      "snd (infer_calls backend loads keys new_selector_state)"]
  show ?thesis by (simp add: valid_result_def)
qed

theorem selection_result_valid_witness:
  "fst (infer_calls (\<lambda>n req. Inr (function_call_response ''args''))
          (\<lambda>s. Inr (JObj [(''message_types'', JArr [JStr ''GPS'', JStr ''XYZ'', JNum 3])]))
          [(''Any GPS glitches?'', [], {''GPS'', ''ATT''})] new_selector_state)
     = [Inr {''GPS''}]"
  using selection_result_valid [of "\<lambda>n req. Inr (function_call_response ''args'')"
      "\<lambda>s. Inr (JObj [(''message_types'', JArr [JStr ''GPS'', JStr ''XYZ'', JNum 3])])"
      "[(''Any GPS glitches?'', [], {''GPS'', ''ATT''})]"]
  by (simp add: infer_message_types_llm_def infer_body_def new_selector_state_def
      function_call_response_def intersect_types_def maxsize_def Let_def)

text \<open>
  Claim C1, at two failing inputs. When the backend call raises a timeout, and when the
  backend returns a function call whose arguments text the JSON decoder rejects,
  \<open>infer_message_types_llm\<close> does not return \<open>{"ERR"}\<close>: the exception reaches the
  caller, since the body has no handler.
\<close>

theorem infer_failure_raises:
  "fst (infer_message_types_llm (\<lambda>n req. Inl APITimeoutError) loads
          (''Any GPS glitches?'', [], {''GPS'', ''ATT''}) new_selector_state)
     = Inl APITimeoutError
   \<and> fst (infer_message_types_llm (\<lambda>n req. Inr (function_call_response ''{oops''))
          (loads(''{oops'' := Inl JSONDecodeError))
          (''Any GPS glitches?'', [], {''GPS'', ''ATT''}) new_selector_state)
     = Inl JSONDecodeError"
  by (simp add: infer_message_types_llm_def infer_body_def new_selector_state_def
      function_call_response_def Let_def)

text \<open>
  Claim C2, at a failing input. The backend answers "GPS, FOO" to the candidates
  \<open>["GPS"]\<close>; \<open>refine_types_with_llm\<close> returns both identifiers, although \<open>FOO\<close> is
  not a candidate: the reply is split and stripped, and never compared with the candidates.
\<close>

theorem refine_returns_foreign_type:
  "refine_types_with_llm (\<lambda>req. Inr \<lparr>content = ''GPS, FOO'', function_call = None\<rparr>)
      ''Any GPS glitches?'' [] [''GPS'']
     = Inr {''GPS'', ''FOO''}
   \<and> ''FOO'' \<notin> set [''GPS'']"
  by (simp add: refine_types_with_llm_def Let_def strip_def is_space_def)

section \<open>Selector memoization\<close>

subsection \<open>Facts about association lists\<close>

lemma map_of_filter_other:
  "k \<noteq> key \<Longrightarrow> map_of (filter (\<lambda>e. fst e \<noteq> k) c) key = map_of c key"
  by (induction c) auto

lemma map_of_take_stable:
  "map_of c key = Some v \<Longrightarrow> map_of (take n c) key = Some v \<or> map_of (take n c) key = None"
proof (induction c arbitrary: n)
  case Nil
  then show ?case by simp
next
  case (Cons e c)
  then show ?case by (cases n) (auto split: if_splits)
qed

lemma map_of_take_ahead:
  "map_of c key = Some v \<Longrightarrow> length (ahead key c) < n \<Longrightarrow> map_of (take n c) key = Some v"
proof (induction c arbitrary: n)
  case Nil
  then show ?case by simp
next
  case (Cons e c)
  then show ?case by (cases n) (auto simp: ahead_def split: if_splits)
qed

lemma ahead_take: "set (ahead key (take n c)) \<subseteq> set (ahead key c)"
proof (induction c arbitrary: n)
  case Nil
  then show ?case by simp
next
  case (Cons e c)
  then show ?case by (cases n) (auto simp: ahead_def)
qed

lemma ahead_filter:
  "k \<noteq> key \<Longrightarrow> set (ahead key (filter (\<lambda>e. fst e \<noteq> k) c)) \<subseteq> set (ahead key c)"
  by (induction c) (auto simp: ahead_def)

lemma length_ahead:
  assumes "distinct (map fst c)" and "fst ` set (ahead key c) \<subseteq> D" and "finite D"
  shows "length (ahead key c) \<le> card D"
proof -
  have "map fst (ahead key c) = takeWhile (\<lambda>k. k \<noteq> key) (map fst c)"
    by (simp add: ahead_def takeWhile_map comp_def)
  then have "distinct (map fst (ahead key c))"
    using assms(1) by (simp add: distinct_takeWhile)
  then have "length (ahead key c) = card (fst ` set (ahead key c))"
    by (metis distinct_card length_map set_map)
  also have "\<dots> \<le> card D"
    using assms(2,3) by (rule card_mono [rotated])
  finally show ?thesis .
qed

subsection \<open>One call through the cache\<close>

lemma infer_hit:
  assumes "map_of (lru st) key = Some v"
  shows "infer_message_types_llm backend loads key st
         = (Inr v, st\<lparr>lru := (key, v) # filter (\<lambda>e. fst e \<noteq> key) (lru st)\<rparr>)"
  using assms by (simp add: infer_message_types_llm_def)

lemma infer_miss:
  assumes "map_of (lru st) key = None"
  obtains (raised) e where
      "infer_message_types_llm backend loads key st
       = (Inl e, st\<lparr>backend_calls := backend_calls st @ [key]\<rparr>)"
  | (returned) v where
      "infer_message_types_llm backend loads key st
       = (Inr v, st\<lparr>backend_calls := backend_calls st @ [key],
                      lru := take maxsize ((key, v) # lru st)\<rparr>)"
proof -
  obtain q rc ty where key: "key = (q, rc, ty)" by (cases key) auto
  show thesis
  proof (cases "infer_body (backend (length (backend_calls st))) loads q rc ty")
    case (Inl e)
    then show ?thesis
      using assms key raised [of e] by (simp add: infer_message_types_llm_def Let_def)
  next
    case (Inr v)
    then show ?thesis
      using assms key returned [of v] by (simp add: infer_message_types_llm_def Let_def)
  qed
qed

lemma infer_returns_cached:
  assumes "infer_message_types_llm backend loads key st = (Inr v, st')"
  shows "map_of (lru st') key = Some v \<and> ahead key (lru st') = []
       \<and> count_list (backend_calls st') key \<le> Suc (count_list (backend_calls st) key)"
proof (cases "map_of (lru st) key")
  case (Some w)
  then show ?thesis using assms infer_hit [OF Some, of backend loads]
    by (auto simp: ahead_def)
next
  case None
  then show ?thesis
    using assms
    by (cases rule: infer_miss [OF None, of backend loads]) (auto simp: ahead_def maxsize_def)
qed

lemma lru_ok_step:
  assumes "lru_ok st" and "infer_message_types_llm backend loads k st = (r, st')"
  shows "lru_ok st'"
proof (cases "map_of (lru st) k")
  case (Some w)
  then have "k \<in> fst ` set (lru st)" by (meson domI dom_map_of_conv_image_fst [THEN equalityD1] subsetD map_of_eq_None_iff option.distinct(1))
  then have "length (filter (\<lambda>e. fst e \<noteq> k) (lru st)) < length (lru st)"
    by (auto intro!: length_filter_less)
  moreover have "distinct (map fst (filter (\<lambda>e. fst e \<noteq> k) (lru st)))"
    using assms(1) by (simp add: lru_ok_def distinct_map_filter)
  ultimately show ?thesis
    using assms infer_hit [OF Some, of backend loads] by (auto simp: lru_ok_def)
next
  case None
  then have nk: "k \<notin> fst ` set (lru st)" by (simp add: map_of_eq_None_iff)
  have "distinct (map fst (take maxsize ((k, v) # lru st)))" for v
  proof -
    have "distinct (map fst ((k, v) # lru st))" using nk assms(1) by (simp add: lru_ok_def)
    then show ?thesis by (simp only: take_map [symmetric] distinct_take)
  qed
  then show ?thesis
    using assms
    by (cases rule: infer_miss [OF None, of backend loads]) (auto simp: lru_ok_def)
qed

lemma lru_ok_calls:
  "lru_ok st \<Longrightarrow> lru_ok (snd (infer_calls backend loads keys st))"
proof (induction keys arbitrary: st)
  case Nil
  then show ?case by simp
next
  case (Cons k keys)
  obtain r st1 where s1: "infer_message_types_llm backend loads k st = (r, st1)"
    by (cases "infer_message_types_llm backend loads k st") auto
  from Cons.IH [OF lru_ok_step [OF Cons.prems s1]] show ?case
    by (auto simp: s1 split: prod.splits)
qed


subsection \<open>Sequences of calls\<close>

lemma cached_throughout_now:
  "cached_throughout backend loads key keys st \<Longrightarrow> map_of (lru st) key \<noteq> None"
  by (cases keys) simp_all

lemma entry_step:
  assumes "map_of (lru st) key = Some v"
    and "infer_message_types_llm backend loads k st = (r, st')"
  shows "(map_of (lru st') key = Some v \<or> map_of (lru st') key = None)
       \<and> (k = key \<longrightarrow> r = Inr v)
       \<and> count_list (backend_calls st') key = count_list (backend_calls st) key"
proof (cases "k = key")
  case True
  then show ?thesis
    using assms infer_hit [OF assms(1), of backend loads] by auto
next
  case False
  show ?thesis
  proof (cases "map_of (lru st) k")
    case (Some w)
    then show ?thesis
      using assms False infer_hit [OF Some, of backend loads]
      by (auto simp: map_of_filter_other)
  next
    case None
    from None show ?thesis
    proof (cases rule: infer_miss [where backend = backend and loads = loads])
      case (raised e)
      then have "r = Inl e" "st' = st\<lparr>backend_calls := backend_calls st @ [k]\<rparr>"
        using assms(2) by simp_all
      then show ?thesis using assms(1) False by simp
    next
      case (returned w)
      then have r: "r = Inr w"
        and st': "st' = st\<lparr>backend_calls := backend_calls st @ [k],
                          lru := take maxsize ((k, w) # lru st)\<rparr>"
        using assms(2) by simp_all
      have "map_of (take maxsize ((k, w) # lru st)) key = Some v
          \<or> map_of (take maxsize ((k, w) # lru st)) key = None"
        using map_of_take_stable [of "(k, w) # lru st" key v maxsize] assms(1) False by simp
      then show ?thesis using False by (simp add: r st')
    qed
  qed
qed

lemma memo_calls:
  assumes "map_of (lru st) key = Some v"
    and "cached_throughout backend loads key keys st"
    and "infer_calls backend loads keys st = (rs, st')"
  shows "length rs = length keys
       \<and> (\<forall>i < length keys. keys ! i = key \<longrightarrow> rs ! i = Inr v)
       \<and> count_list (backend_calls st') key = count_list (backend_calls st) key"
  using assms
proof (induction keys arbitrary: st rs st')
  case Nil
  then show ?case by simp
next
  case (Cons k keys)
  obtain r st1 where s1: "infer_message_types_llm backend loads k st = (r, st1)"
    by (cases "infer_message_types_llm backend loads k st") auto
  obtain rs1 st2 where s2: "infer_calls backend loads keys st1 = (rs1, st2)"
    by (cases "infer_calls backend loads keys st1") auto
  have rs: "rs = r # rs1" and st': "st' = st2"
    using Cons.prems(3) s1 s2 by simp_all
  have ct: "cached_throughout backend loads key keys st1"
    using Cons.prems(2) s1 by simp
  note step = entry_step [OF Cons.prems(1) s1]
  have m1: "map_of (lru st1) key = Some v"
    using step cached_throughout_now [OF ct] by auto
  note ih = Cons.IH [OF m1 ct s2]
  have "(k # keys) ! i = key \<longrightarrow> (r # rs1) ! i = Inr v" if "i < length (k # keys)" for i
    using that step ih by (cases i) auto
  then show ?case using ih step rs st' by simp
qed

lemma survive_step:
  assumes ok: "lru_ok st"
    and m: "map_of (lru st) key = Some v"
    and a: "fst ` set (ahead key (lru st)) \<subseteq> D"
    and D: "finite D" "card D < maxsize"
    and k: "k \<in> D \<or> k = key"
    and s: "infer_message_types_llm backend loads k st = (r, st')"
  shows "map_of (lru st') key = Some v \<and> fst ` set (ahead key (lru st')) \<subseteq> D"
proof (cases "k = key")
  case True
  then show ?thesis
    using s infer_hit [OF m, of backend loads] by (auto simp: ahead_def)
next
  case False
  then have kD: "k \<in> D" using k by simp
  show ?thesis
  proof (cases "map_of (lru st) k")
    case (Some w)
    have "fst ` set (ahead key (filter (\<lambda>e. fst e \<noteq> k) (lru st))) \<subseteq> D"
      using ahead_filter [OF False, of "lru st"] a by blast
    then have "fst ` set (ahead key ((k, w) # filter (\<lambda>e. fst e \<noteq> k) (lru st))) \<subseteq> D"
      using kD False by (simp add: ahead_def)
    moreover have "r = Inr w" "st' = st\<lparr>lru := (k, w) # filter (\<lambda>e. fst e \<noteq> k) (lru st)\<rparr>"
      using s infer_hit [OF Some, of backend loads] by simp_all
    ultimately show ?thesis
      using False m by (simp add: map_of_filter_other)
  next
    case None
    then have nk: "k \<notin> fst ` set (lru st)" by (simp add: map_of_eq_None_iff)
    have "set (ahead key (lru st)) \<subseteq> set (lru st)"
      by (auto simp: ahead_def dest: set_takeWhileD)
    then have a': "fst ` set (ahead key (lru st)) \<subseteq> D - {k}"
      using a nk by auto
    have "length (ahead key (lru st)) \<le> card (D - {k})"
      using length_ahead [OF _ a'] ok D(1) by (simp add: lru_ok_def)
    also have "\<dots> < card D"
      using D(1) kD by (rule card_Diff1_less)
    finally have len: "length (ahead key ((k, w) # lru st)) < maxsize" for w
      using False D(2) by (simp add: ahead_def)
    have m': "map_of ((k, w) # lru st) key = Some v" for w
      using m False by simp
    have 1: "map_of (take maxsize ((k, w) # lru st)) key = Some v" for w
      using map_of_take_ahead [OF m' len] .
    have "fst ` set (ahead key ((k, w) # lru st)) \<subseteq> D" for w
      using a kD False by (simp add: ahead_def)
    then have 2: "fst ` set (ahead key (take maxsize ((k, w) # lru st))) \<subseteq> D" for w
      using ahead_take [of key maxsize "(k, w) # lru st"] by blast
    from None show ?thesis
    proof (cases rule: infer_miss [where backend = backend and loads = loads])
      case (raised e)
      then have "st' = st\<lparr>backend_calls := backend_calls st @ [k]\<rparr>"
        using s by simp
      then show ?thesis using m a by simp
    next
      case (returned w)
      then have "st' = st\<lparr>backend_calls := backend_calls st @ [k],
                          lru := take maxsize ((k, w) # lru st)\<rparr>"
        using s by simp
      then show ?thesis using 1 [of w] 2 [of w] by simp
    qed
  qed
qed

lemma survive_calls:
  assumes "lru_ok st"
    and "map_of (lru st) key = Some v"
    and "fst ` set (ahead key (lru st)) \<subseteq> D"
    and "finite D" "card D < maxsize"
    and "set keys \<subseteq> D \<union> {key}"
  shows "cached_throughout backend loads key keys st"
  using assms
proof (induction keys arbitrary: st)
  case Nil
  then show ?case by simp
next
  case (Cons k keys)
  obtain r st1 where s1: "infer_message_types_llm backend loads k st = (r, st1)"
    by (cases "infer_message_types_llm backend loads k st") auto
  have k: "k \<in> D \<or> k = key" using Cons.prems(6) by auto
  note step = survive_step [OF Cons.prems(1,2,3,4,5) k s1]
  have "cached_throughout backend loads key keys st1"
    using Cons.IH [OF lru_ok_step [OF Cons.prems(1) s1] _ _ Cons.prems(4,5)] step Cons.prems(6)
    by auto
  then show ?case using Cons.prems(2) s1 by simp
qed

text \<open>
  Claim C9. Take a call of \<open>infer_message_types_llm\<close> that returns a result, in any
  state reached from a fresh cache, and any calls after it. While the entry of the call's
  key has not been evicted, every later call with the same key returns the same result,
  and the backend is not called for that key again; the call that made the entry called
  the backend at most once. The entry is not evicted as long as the later calls have fewer
  than 256 distinct other keys, and the cache never holds more than 256 entries. A call
  that raises stores nothing, so it makes no entry.
\<close>

theorem memoized_selection:
  assumes "infer_message_types_llm backend loads key
             (snd (infer_calls backend loads earlier new_selector_state)) = (Inr result, st)"
  shows "(cached_throughout backend loads key later st \<longrightarrow>
            (\<forall>i < length later. later ! i = key \<longrightarrow>
               fst (infer_calls backend loads later st) ! i = Inr result)
            \<and> count_list (backend_calls (snd (infer_calls backend loads later st))) key
              = count_list (backend_calls st) key)
       \<and> (card (set later - {key}) < maxsize \<longrightarrow> cached_throughout backend loads key later st)
       \<and> count_list (backend_calls st) key
           \<le> Suc (count_list (backend_calls (snd (infer_calls backend loads earlier new_selector_state))) key)
       \<and> length (lru (snd (infer_calls backend loads later st))) \<le> maxsize"
proof -
  let ?st0 = "snd (infer_calls backend loads earlier new_selector_state)"
  have ok0: "lru_ok ?st0"
    by (rule lru_ok_calls) (simp add: lru_ok_def new_selector_state_def)
  have ok: "lru_ok st" using lru_ok_step [OF ok0 assms] .
  note c = infer_returns_cached [OF assms]
  from c have m: "map_of (lru st) key = Some result" by simp
  have 1: "(\<forall>i < length later. later ! i = key \<longrightarrow>
               fst (infer_calls backend loads later st) ! i = Inr result)
           \<and> count_list (backend_calls (snd (infer_calls backend loads later st))) key
              = count_list (backend_calls st) key"
    if "cached_throughout backend loads key later st"
    using memo_calls [OF m that, of "fst (infer_calls backend loads later st)"
        "snd (infer_calls backend loads later st)"] by simp
  have 2: "cached_throughout backend loads key later st" if "card (set later - {key}) < maxsize"
  proof (rule survive_calls [OF ok m, of "set later - {key}"])
    show "fst ` set (ahead key (lru st)) \<subseteq> set later - {key}" using c by simp
    show "finite (set later - {key})" by simp
    show "card (set later - {key}) < maxsize" using that .
    show "set later \<subseteq> set later - {key} \<union> {key}" by auto
  qed
  have 3: "length (lru (snd (infer_calls backend loads later st))) \<le> maxsize"
    using lru_ok_calls [OF ok, of backend loads later] by (simp add: lru_ok_def)
  show ?thesis using 1 2 3 c by blast
qed


theorem memoized_selection_witness:
  "fst (infer_calls example_backend example_loads
          [(''q2'', [], {''GPS'', ''ATT''}), (''q1'', [], {''GPS'', ''ATT''})]
          (snd (infer_message_types_llm example_backend example_loads
                  (''q1'', [], {''GPS'', ''ATT''}) new_selector_state))) ! 1
     = Inr {''GPS''}
   \<and> count_list (backend_calls (snd (infer_calls example_backend example_loads
          [(''q2'', [], {''GPS'', ''ATT''}), (''q1'', [], {''GPS'', ''ATT''})]
          (snd (infer_message_types_llm example_backend example_loads
                  (''q1'', [], {''GPS'', ''ATT''}) new_selector_state)))))
        (''q1'', [], {''GPS'', ''ATT''})
     = 1"
proof -
  let ?k1 = "(''q1'', [], {''GPS'', ''ATT''}) :: selector_key"
  let ?k2 = "(''q2'', [], {''GPS'', ''ATT''}) :: selector_key"
  let ?st = "snd (infer_message_types_llm example_backend example_loads ?k1 new_selector_state)"
  have a: "infer_message_types_llm example_backend example_loads ?k1
             (snd (infer_calls example_backend example_loads [] new_selector_state))
           = (Inr {''GPS''}, ?st)"
    by (simp add: infer_message_types_llm_def infer_body_def new_selector_state_def
        example_backend_def example_loads_def function_call_response_def intersect_types_def
        maxsize_def Let_def)
  have c: "card (set [?k2, ?k1] - {?k1}) < maxsize"
    by (simp add: maxsize_def)
  have n: "count_list (backend_calls ?st) ?k1 = 1"
    by (simp add: infer_message_types_llm_def infer_body_def new_selector_state_def
        example_backend_def example_loads_def function_call_response_def intersect_types_def
        maxsize_def Let_def)
  from memoized_selection [OF a, of "[?k2, ?k1]"] c n
  show ?thesis by simp
qed

end
